theory Spec2Isabelle
  imports Main "HOL-Library.Multiset"
begin

section \<open>Levels\<close>

text \<open>
  \<^verbatim>\<open>type Level int\<close> with the constants \<^verbatim>\<open>LUnrecognized = iota, LPanic, ..., LDebug\<close>.
  A \<^verbatim>\<open>Level\<close> is any Go \<^verbatim>\<open>int\<close>; levels are only compared, never computed with, so the
  model uses unbounded integers.
\<close>

type_synonym Level = int

definition LUnrecognized :: Level where "LUnrecognized = 0"
definition LPanic :: Level where "LPanic = 1"
definition LFatal :: Level where "LFatal = 2"
definition LError :: Level where "LError = 3"
definition LWarn :: Level where "LWarn = 4"
definition LInfo :: Level where "LInfo = 5"
definition LDebug :: Level where "LDebug = 6"

lemmas Level_defs =
  LUnrecognized_def LPanic_def LFatal_def LError_def LWarn_def LInfo_def LDebug_def

definition Levels :: "Level list" where
  "Levels = [LPanic, LFatal, LError, LWarn, LInfo, LDebug]"

definition stringToLevel :: "string \<rightharpoonup> Level" where
  "stringToLevel = map_of
     [(''panic'', LPanic), (''fatal'', LFatal), (''error'', LError),
      (''warn'', LWarn), (''info'', LInfo), (''debug'', LDebug)]"

text \<open>
  \<^verbatim>\<open>strings.ToLower\<close> and \<^verbatim>\<open>strings.ToUpper\<close> belong to the standard library. On a string
  of ASCII bytes they map the letters \<^verbatim>\<open>A..Z\<close> (resp. \<^verbatim>\<open>a..z\<close>) bytewise; on any other
  string they apply the Unicode case mapping, which the model takes as a parameter.
\<close>

definition isASCII :: "string \<Rightarrow> bool" where
  "isASCII s = list_all (\<lambda>c. (of_char c :: nat) < 128) s"

definition lower_byte :: "char \<Rightarrow> char" where
  "lower_byte c =
     (let n = (of_char c :: nat) in if 65 \<le> n \<and> n \<le> 90 then char_of (n + 32) else c)"

definition upper_byte :: "char \<Rightarrow> char" where
  "upper_byte c =
     (let n = (of_char c :: nat) in if 97 \<le> n \<and> n \<le> 122 then char_of (n - 32) else c)"

definition strings_ToLower :: "(string \<Rightarrow> string) \<Rightarrow> string \<Rightarrow> string" where
  "strings_ToLower unicode_lower s = (if isASCII s then map lower_byte s else unicode_lower s)"

definition StringToLevel :: "(string \<Rightarrow> string) \<Rightarrow> string \<Rightarrow> Level" where
  "StringToLevel unicode_lower lv =
     (case stringToLevel (strings_ToLower unicode_lower lv) of
        Some level \<Rightarrow> level
      | None \<Rightarrow> LUnrecognized)"

definition Level_String :: "Level \<Rightarrow> string" where
  "Level_String l =
     (if l = LPanic then ''panic''
      else if l = LFatal then ''fatal''
      else if l = LError then ''error''
      else if l = LWarn then ''warn''
      else if l = LInfo then ''info''
      else if l = LDebug then ''debug''
      else ''unrecognized'')"

text \<open>The six names of the table \<^verbatim>\<open>stringToLevel\<close>.\<close>

definition level_names :: "string list" where
  "level_names = [''panic'', ''fatal'', ''error'', ''warn'', ''info'', ''debug'']"


section \<open>Values, fields and the field builders\<close>

text \<open>
  \<^verbatim>\<open>Value interface{}\<close>: the model distinguishes the dynamic types the formatting code
  tells apart, a string (the only type the assertion \<^verbatim>\<open>fd.Value.(string)\<close> accepts) and
  three others.
\<close>

datatype Value = VString string | VInt int | VBool bool | VNil

record Field =
  Order :: int
  Key :: string
  Value :: Value

definition newline :: string where
  "newline = [CHR 0x0A]"

definition digit_chars :: string where
  "digit_chars = ''0123456789''"

fun digits10 :: "nat \<Rightarrow> string" where
  "digits10 n =
     (if n < 10 then [digit_chars ! n]
      else digits10 (n div 10) @ [digit_chars ! (n mod 10)])"

declare digits10.simps [simp del]

text \<open>\<^verbatim>\<open>strconv.Itoa\<close>, also what the verb \<^verbatim>\<open>%d\<close> prints for an \<^verbatim>\<open>int\<close>.\<close>

definition Itoa :: "int \<Rightarrow> string" where
  "Itoa i = (if i < 0 then CHR ''-'' # digits10 (nat (- i)) else digits10 (nat i))"

text \<open>
  \<^verbatim>\<open>mkFields\<close>: \<^verbatim>\<open>for i, vv := range v { idx := i + index; ret = append(ret, Field{idx,
  fmt.Sprintf("Field%d", idx), vv}) }\<close>.
\<close>

definition mkFields :: "int \<Rightarrow> Value list \<Rightarrow> Field list" where
  "mkFields index v =
     map (\<lambda>(i, vv). let idx = int i + index in
            \<lparr>Order = idx, Key = ''Field'' @ Itoa idx, Value = vv\<rparr>)
         (enumerate 0 v)"

definition mkFormatFields :: "string \<Rightarrow> Value list \<Rightarrow> Field list" where
  "mkFormatFields fmt v =
     [\<lparr>Order = 1, Key = ''Format'', Value = VString fmt\<rparr>] @ mkFields 1 v"

text \<open>\<^verbatim>\<open>FieldsSort.Less(i, j)\<close> compares the \<^verbatim>\<open>Order\<close> of the two fields.\<close>

definition FieldsSort_Less :: "Field \<Rightarrow> Field \<Rightarrow> bool" where
  "FieldsSort_Less a b = (Order a < Order b)"


section \<open>The standard library the formatting code calls\<close>

text \<open>
  \<^verbatim>\<open>sort.Sort\<close>, \<^verbatim>\<open>fmt.Fprintf\<close> with a caller's template, the Unicode case mapping, the
  clock and the terminal probe are not code of this package. They are parameters of the
  model, collected in one record.
\<close>

record env =
  sort_Sort :: "Field list \<Rightarrow> Field list"
  fmt_Sprintf :: "string \<Rightarrow> Value list \<Rightarrow> string"
  time_Now_Format :: "string \<Rightarrow> string"
  NoColor :: bool

text \<open>
  What the documentation of \<^verbatim>\<open>sort.Sort\<close> promises: the data end up in ascending order as
  determined by \<^verbatim>\<open>Less\<close>, and they are the same data. It adds: the sort is not guaranteed
  to be stable.
\<close>

definition Sort_contract :: "(Field list \<Rightarrow> Field list) \<Rightarrow> bool" where
  "Sort_contract srt =
     (\<forall>fds. mset (srt fds) = mset fds \<and>
            sorted_wrt (\<lambda>a b. \<not> FieldsSort_Less b a) (srt fds))"

text \<open>
  \<^verbatim>\<open>insertionSort\<close> of package \<^verbatim>\<open>sort\<close>: element \<^verbatim>\<open>i\<close> is swapped towards the front while
  it is \<^verbatim>\<open>Less\<close> than its left neighbour. \<open>bubble\<close> works on the reversed prefix.
\<close>

fun bubble :: "Field \<Rightarrow> Field list \<Rightarrow> Field list" where
  "bubble x [] = [x]"
| "bubble x (y # ys) = (if FieldsSort_Less x y then y # bubble x ys else x # y # ys)"

definition insertionSort :: "Field list \<Rightarrow> Field list" where
  "insertionSort fds = rev (foldl (\<lambda>rp x. bubble x rp) [] fds)"

text \<open>
  The pass \<^verbatim>\<open>for i := a + 6; i < b; i++ { if data.Less(i, i-6) { data.Swap(i, i-6) } }\<close>
  that \<^verbatim>\<open>sort.Sort\<close> of Go 1.6 to 1.18 runs before \<^verbatim>\<open>insertionSort\<close> on a slice of at
  most 12 elements.
\<close>

fun shell6_from :: "nat \<Rightarrow> nat \<Rightarrow> Field list \<Rightarrow> Field list" where
  "shell6_from 0 i fds = fds"
| "shell6_from (Suc k) i fds =
     shell6_from k (Suc i)
       (if FieldsSort_Less (fds ! i) (fds ! (i - 6))
        then fds[i := fds ! (i - 6), i - 6 := fds ! i] else fds)"

definition shell6 :: "Field list \<Rightarrow> Field list" where
  "shell6 fds = shell6_from (length fds - 6) 6 fds"

definition sort_Sort_go1_6 :: "Field list \<Rightarrow> Field list" where
  "sort_Sort_go1_6 fds = insertionSort (shell6 fds)"

text \<open>What \<^verbatim>\<open>fmt\<close> prints for one operand under the verb \<^verbatim>\<open>%s\<close>.\<close>

definition type_name :: "Value \<Rightarrow> string" where
  "type_name v = (case v of VString _ \<Rightarrow> ''string'' | VInt _ \<Rightarrow> ''int''
                  | VBool _ \<Rightarrow> ''bool'' | VNil \<Rightarrow> ''nil'')"

definition Sprint_v :: "Value \<Rightarrow> string" where
  "Sprint_v v = (case v of VString s \<Rightarrow> s | VInt i \<Rightarrow> Itoa i
                 | VBool b \<Rightarrow> (if b then ''true'' else ''false'') | VNil \<Rightarrow> ''<nil>'')"

definition bad_verb :: "char \<Rightarrow> Value \<Rightarrow> string" where
  "bad_verb c v =
     (case v of VNil \<Rightarrow> ''%!'' @ [c] @ ''(<nil>)''
      | _ \<Rightarrow> ''%!'' @ [c] @ ''('' @ type_name v @ ''='' @ Sprint_v v @ '')'')"

definition Sprint_s :: "Value \<Rightarrow> string" where
  "Sprint_s v = (case v of VString s \<Rightarrow> s | _ \<Rightarrow> bad_verb CHR ''s'' v)"

text \<open>
  A fragment of \<^verbatim>\<open>fmt.Sprintf\<close>, for evaluating the model at concrete templates: the
  directives \<^verbatim>\<open>%s\<close>, \<^verbatim>\<open>%v\<close>, \<^verbatim>\<open>%d\<close> and \<^verbatim>\<open>%%\<close> without flags, and the diagnostics for a
  missing operand, a wrong operand and surplus operands.
\<close>

definition verb_out :: "char \<Rightarrow> Value \<Rightarrow> string" where
  "verb_out c v =
     (if c = CHR ''s'' then Sprint_s v
      else if c = CHR ''v'' then Sprint_v v
      else if c = CHR ''d'' then (case v of VInt i \<Rightarrow> Itoa i | _ \<Rightarrow> bad_verb c v)
      else bad_verb c v)"

fun join_comma :: "string list \<Rightarrow> string" where
  "join_comma [] = []"
| "join_comma [x] = x"
| "join_comma (x # y # ys) = x @ '', '' @ join_comma (y # ys)"

definition extra_out :: "Value list \<Rightarrow> string" where
  "extra_out vs =
     (if vs = [] then []
      else ''%!(EXTRA '' @
           join_comma (map (\<lambda>v. case v of VNil \<Rightarrow> ''<nil>''
                                  | _ \<Rightarrow> type_name v @ ''='' @ Sprint_v v) vs) @ '')'')"

fun Sprintf_basic :: "string \<Rightarrow> Value list \<Rightarrow> string" where
  "Sprintf_basic [] vs = extra_out vs"
| "Sprintf_basic [c] vs =
     (if c = CHR ''%'' then ''%!(NOVERB)'' @ extra_out vs else c # extra_out vs)"
| "Sprintf_basic (c # d # cs) vs =
     (if c \<noteq> CHR ''%'' then c # Sprintf_basic (d # cs) vs
      else if d = CHR ''%'' then CHR ''%'' # Sprintf_basic cs vs
      else (case vs of
              [] \<Rightarrow> ''%!'' @ [d] @ ''(MISSING)'' @ Sprintf_basic cs []
            | v # vs' \<Rightarrow> verb_out d v @ Sprintf_basic cs vs'))"


section \<open>Hooks\<close>

text \<open>
  \<^verbatim>\<open>type Timing int\<close> with \<^verbatim>\<open>PRE = iota\<close> and \<^verbatim>\<open>POST\<close>.
\<close>

type_synonym Timing = int

definition PRE :: Timing where "PRE = 0"
definition POST :: Timing where "POST = 1"

text \<open>
  A call leaves in one of three ways: it returns, the process exits (\<^verbatim>\<open>os.Exit\<close>), or a
  panic unwinds the stack.
\<close>

datatype abort = os_Exit int | go_panic string

text \<open>
  A hook returns \<^verbatim>\<open>nil\<close> or an error, or it does not return. The model gives a hook the
  effective level and the fields of the entry, and a label that identifies it in the
  trace.
\<close>

datatype hook_result = HNil | HError string | HAbort abort

record Hook =
  hk_id :: string
  hk_fn :: "Level \<times> Field list \<Rightarrow> hook_result"

definition hookFor :: "string \<Rightarrow> (Level \<times> Field list \<Rightarrow> hook_result) \<Rightarrow> Hook" where
  "hookFor n fn = \<lparr>hk_id = n, hk_fn = fn\<rparr>"

text \<open>\<^verbatim>\<open>has map[Timing]map[Level][]Hook\<close>\<close>

type_synonym hooks = "Timing \<rightharpoonup> (Level \<rightharpoonup> Hook list)"

text \<open>
  \<^verbatim>\<open>m := h.has[t]; m[l] = append(m[l], hk...); h.has[t] = m\<close>. For a timing with no inner
  map \<^verbatim>\<open>m\<close> is the nil map, and the assignment to its entry panics.
\<close>

definition AddHook :: "hooks \<Rightarrow> Timing \<Rightarrow> Level \<Rightarrow> Hook list \<Rightarrow> abort + hooks" where
  "AddHook has t l hk =
     (case has t of
        None \<Rightarrow> Inl (go_panic ''assignment to entry in nil map'')
      | Some m \<Rightarrow>
          Inr (has(t \<mapsto> m(l \<mapsto> (case m l of None \<Rightarrow> [] | Some hs \<Rightarrow> hs) @ hk))))"

definition exit_hook :: Hook where
  "exit_hook = hookFor ''os.Exit(1)'' (\<lambda>_. HAbort (os_Exit 1))"

definition panic_hook :: Hook where
  "panic_hook = hookFor ''panic hook'' (\<lambda>_. HAbort (go_panic ''panic hook''))"

text \<open>
  \<^verbatim>\<open>newHooks\<close>. Both calls of \<^verbatim>\<open>AddHook\<close> find the inner map of \<^verbatim>\<open>POST\<close>, so neither
  \<open>Inl\<close> branch is ever taken (lemma \<open>newHooks_eq\<close>).
\<close>

definition newHooks :: hooks where
  "newHooks =
     (let has = [PRE \<mapsto> Map.empty, POST \<mapsto> Map.empty] in
      case AddHook has POST LFatal [exit_hook] of
        Inl _ \<Rightarrow> has
      | Inr h1 \<Rightarrow> (case AddHook h1 POST LPanic [panic_hook] of Inl _ \<Rightarrow> h1 | Inr h2 \<Rightarrow> h2))"

text \<open>
  The steps of the pipeline, in the order they happen: an entry enters \<^verbatim>\<open>log\<close>, a hook is
  invoked, the formatter is invoked, the rendered bytes are handed to \<^verbatim>\<open>io.Copy\<close>.
\<close>

datatype event =
    EvLog Level "Field list"
  | EvHook Timing Level string
  | EvFormat
  | EvCopy string

text \<open>
  The loop of \<^verbatim>\<open>hooks.Fire\<close>: \<^verbatim>\<open>for _, hook := range l { if err := hook.Fire(e); err != nil
  { return err } }\<close>.
\<close>

fun fire_each :: "Timing \<Rightarrow> Level \<Rightarrow> Hook list \<Rightarrow> Level \<times> Field list
    \<Rightarrow> event list \<times> hook_result" where
  "fire_each at lv [] e = ([], HNil)"
| "fire_each at lv (hook # l) e =
     (case hk_fn hook e of
        HNil \<Rightarrow> (case fire_each at lv l e of (evs, r) \<Rightarrow> (EvHook at lv (hk_id hook) # evs, r))
      | err \<Rightarrow> ([EvHook at lv (hk_id hook)], err))"

definition hooks_Fire :: "hooks \<Rightarrow> Timing \<Rightarrow> Level \<Rightarrow> Level \<times> Field list
    \<Rightarrow> event list \<times> hook_result" where
  "hooks_Fire has at lv e =
     (case has at of
        None \<Rightarrow> ([], HNil)
      | Some m \<Rightarrow> (case m lv of None \<Rightarrow> ([], HNil) | Some l \<Rightarrow> fire_each at lv l e))"

text \<open>The hooks registered for exactly the pair \<open>(at, lv)\<close>.\<close>

definition registered :: "hooks \<Rightarrow> Timing \<Rightarrow> Level \<Rightarrow> Hook list" where
  "registered has at lv =
     (case has at of None \<Rightarrow> [] | Some m \<Rightarrow> (case m lv of None \<Rightarrow> [] | Some l \<Rightarrow> l))"


section \<open>Formatters\<close>

text \<open>
  \<^verbatim>\<open>formatTo\<close>. The assertion \<^verbatim>\<open>fd.Value.(string)\<close> has no \<^verbatim>\<open>ok\<close> result: on any other
  dynamic type it panics.
\<close>

fun formatTo_loop :: "Field list \<Rightarrow> bool \<times> string \<times> Value list
    \<Rightarrow> abort + bool \<times> string \<times> Value list" where
  "formatTo_loop [] acc = Inr acc"
| "formatTo_loop (fd # fds) (formattable, f, ff) =
     (if Key fd = ''Format'' then
        (case Value fd of
           VString s \<Rightarrow> formatTo_loop fds (True, s, ff)
         | v \<Rightarrow> Inl (go_panic (''interface conversion: interface {} is '' @ type_name v
                                @ '', not string'')))
      else formatTo_loop fds (formattable, f, ff @ [Value fd]))"

definition formatTo :: "Field list \<Rightarrow> abort + bool \<times> string \<times> Value list" where
  "formatTo fds = formatTo_loop fds (False, [], [])"

text \<open>
  \<^verbatim>\<open>format(b, fds)\<close> returns what it appends to the buffer. \<^verbatim>\<open>sort.Sort(fds)\<close> sorts the
  slice in place, and the slice is the entry's own: the second component is the entry's
  field list afterwards.
\<close>

definition format :: "env \<Rightarrow> Field list \<Rightarrow> (abort + string) \<times> Field list" where
  "format ev fds =
     (let fds' = sort_Sort ev fds in
      (case formatTo fds' of
         Inl a \<Rightarrow> Inl a
       | Inr (formattable, f, ff) \<Rightarrow>
           Inr (if formattable then fmt_Sprintf ev f ff else concat (map Sprint_s ff)),
       fds'))"

text \<open>Colour attributes; only the eight high-intensity foreground colours are bound.\<close>

type_synonym Attribute = int

definition Reset :: Attribute where "Reset = 0"
definition FgHiBlack :: Attribute where "FgHiBlack = 90"
definition FgHiRed :: Attribute where "FgHiRed = 91"
definition FgHiGreen :: Attribute where "FgHiGreen = 92"
definition FgHiYellow :: Attribute where "FgHiYellow = 93"
definition FgHiBlue :: Attribute where "FgHiBlue = 94"
definition FgHiMagenta :: Attribute where "FgHiMagenta = 95"
definition FgHiCyan :: Attribute where "FgHiCyan = 96"
definition FgHiWhite :: Attribute where "FgHiWhite = 97"

definition escape :: string where
  "escape = [CHR 0x1B]"

fun join_semi :: "string list \<Rightarrow> string" where
  "join_semi [] = []"
| "join_semi [x] = x"
| "join_semi (x # y # ys) = x @ '';'' @ join_semi (y # ys)"

definition sequence :: "Attribute list \<Rightarrow> string" where
  "sequence params = join_semi (map Itoa params)"

text \<open>\<^verbatim>\<open>color.wrap\<close> applied to one string.\<close>

definition wrap :: "env \<Rightarrow> Attribute list \<Rightarrow> string \<Rightarrow> string" where
  "wrap ev params a =
     (if NoColor ev then a
      else escape @ ''['' @ sequence params @ ''m'' @ a @ escape @ ''['' @ Itoa Reset @ ''m'')"

definition Level_Color :: "Level \<Rightarrow> Attribute list" where
  "Level_Color lv =
     (if lv = LPanic then [FgHiRed]
      else if lv = LFatal then [FgHiMagenta]
      else if lv = LError then [FgHiCyan]
      else if lv = LWarn then [FgHiYellow]
      else if lv = LInfo then [FgHiGreen]
      else if lv = LDebug then [FgHiBlue]
      else [FgHiWhite])"

text \<open>
  \<^verbatim>\<open>tmplTo\<close> with one of the three templates \<^verbatim>\<open>{{.Lvl}} \<close>, \<^verbatim>\<open>{{.Name}} \<close>, \<^verbatim>\<open>{{.Time}} \<close>:
  the value followed by one space.
\<close>

definition tmplTo :: "string \<Rightarrow> string" where
  "tmplTo v = v @ '' ''"

definition StampNano :: string where
  "StampNano = ''Jan _2 15:04:05.000000000''"

text \<open>
  A formatter of the logger: one of the three of the package, or one the application
  installs, which returns bytes and an error, or panics.
\<close>

datatype Formatter =
    NullFormatter
  | RawFormatter
  | TextFormatter (Name: string) (TimestampFormat: string) (Sort: bool)
  | CustomFormatter "Level \<times> Field list \<Rightarrow> abort + string \<times> string option"

definition MakeTextFormatter :: "string \<Rightarrow> Formatter" where
  "MakeTextFormatter name = TextFormatter name StampNano False"

definition defaultFormatters :: "string \<Rightarrow> (string \<rightharpoonup> Formatter)" where
  "defaultFormatters tag =
     [''null'' \<mapsto> NullFormatter, ''raw'' \<mapsto> RawFormatter, ''text'' \<mapsto> MakeTextFormatter tag]"

text \<open>
  \<^verbatim>\<open>TextFormatter.formatFields\<close>: the three decorated segments, then \<^verbatim>\<open>format\<close>. The sorted
  \<^verbatim>\<open>keys\<close> that \<^verbatim>\<open>TextFormatter.Format\<close> passes are never read. The level names are
  ASCII, so \<^verbatim>\<open>strings.ToUpper\<close> maps them bytewise.
\<close>

definition formatFields :: "env \<Rightarrow> string \<Rightarrow> Level \<Rightarrow> Field list \<Rightarrow> string
    \<Rightarrow> (abort + string) \<times> Field list" where
  "formatFields ev name lvl fds timestampFormat =
     (let lvlText = map upper_byte (Level_String lvl);
          b = wrap ev (Level_Color lvl) (tmplTo lvlText)
              @ wrap ev [FgHiBlack] (tmplTo name)
              @ wrap ev [FgHiBlue] (tmplTo (time_Now_Format ev timestampFormat))
      in (case format ev fds of
            (Inl a, fds') \<Rightarrow> (Inl a, fds')
          | (Inr body, fds') \<Rightarrow> (Inr (b @ body), fds')))"

text \<open>
  \<^verbatim>\<open>Format(e Entry) ([]byte, error)\<close> of a formatter, on an entry with effective level
  \<open>lvl\<close> and fields \<open>fds\<close>; the second component is the entry's field list afterwards.
\<close>

fun Formatter_Format :: "env \<Rightarrow> Formatter \<Rightarrow> Level \<Rightarrow> Field list
    \<Rightarrow> (abort + string \<times> string option) \<times> Field list" where
  "Formatter_Format ev NullFormatter lvl fds = (Inr ([], None), fds)"
| "Formatter_Format ev RawFormatter lvl fds =
     (case format ev fds of
        (Inl a, fds') \<Rightarrow> (Inl a, fds')
      | (Inr body, fds') \<Rightarrow> (Inr (body @ newline, None), fds'))"
| "Formatter_Format ev (TextFormatter name tsf srt) lvl fds =
     (let timestampFormat = (if tsf = [] then StampNano else tsf) in
      case formatFields ev name lvl fds timestampFormat of
        (Inl a, fds') \<Rightarrow> (Inl a, fds')
      | (Inr b, fds') \<Rightarrow> (Inr (b @ newline, None), fds'))"
| "Formatter_Format ev (CustomFormatter f) lvl fds = (f (lvl, fds), fds)"


section \<open>Logger, entry and the world they act on\<close>

text \<open>
  An \<^verbatim>\<open>io.Writer\<close>: \<^verbatim>\<open>Write(p)\<close> takes the bytes written so far and \<open>p\<close>, and returns the
  bytes written afterwards, the count \<^verbatim>\<open>n\<close> and the error. \<open>w_addr\<close> names the place the
  writer writes to.
\<close>

record Writer =
  w_addr :: nat
  w_Write :: "string \<Rightarrow> string \<Rightarrow> string \<times> nat \<times> string option"

definition bytes_Buffer :: "nat \<Rightarrow> Writer" where
  "bytes_Buffer a = \<lparr>w_addr = a, w_Write = (\<lambda>c p. (c @ p, length p, None))\<rparr>"

text \<open>
  \<^verbatim>\<open>type logger struct { io.Writer; level Level; Formatter; formatters formatters; Hooks;
  sync.Mutex }\<close>. The embedded \<^verbatim>\<open>Formatter\<close> is \<^verbatim>\<open>nil\<close> until \<^verbatim>\<open>SwapFormatter\<close> sets it.
  The model is sequential and leaves the mutex out.
\<close>

record logger =
  lg_Writer :: Writer
  lg_level :: Level
  lg_Formatter :: "Formatter option"
  lg_formatters :: "string \<rightharpoonup> Formatter"
  lg_Hooks :: hooks

text \<open>
  \<^verbatim>\<open>type entry struct { created time.Time; level Level; Reader; Logger; fields []Field }\<close>,
  without the time stamp, which no claim reads. The entry holds its logger as it is when
  the entry goes through the pipeline.
\<close>

record entry =
  en_level :: Level
  en_Logger :: logger
  en_fields :: "Field list"

record world =
  sinks :: "nat \<Rightarrow> string"
  stdout :: string
  trace :: "event list"

definition logger_Level :: "logger \<Rightarrow> Level" where
  "logger_Level l = lg_level l"


definition GetFormatter :: "logger \<Rightarrow> string \<Rightarrow> Formatter" where
  "GetFormatter l k = (case lg_formatters l k of Some f \<Rightarrow> f | None \<Rightarrow> NullFormatter)"

definition SwapFormatter :: "logger \<Rightarrow> string \<Rightarrow> logger" where
  "SwapFormatter l f = l\<lparr>lg_Formatter := Some (GetFormatter l f)\<rparr>"

definition New :: "Writer \<Rightarrow> Level \<Rightarrow> string \<Rightarrow> logger" where
  "New w l tag =
     SwapFormatter
       \<lparr>lg_Writer = w, lg_level = l, lg_Formatter = None,
        lg_formatters = defaultFormatters tag, lg_Hooks = newHooks\<rparr>
       ''null''"

text \<open>\<^verbatim>\<open>l.AddHook(...)\<close>, through the embedded \<^verbatim>\<open>Hooks\<close>.\<close>

definition logger_AddHook :: "logger \<Rightarrow> Timing \<Rightarrow> Level \<Rightarrow> Hook list \<Rightarrow> abort + logger" where
  "logger_AddHook l t lv hk =
     (case AddHook (lg_Hooks l) t lv hk of
        Inl a \<Rightarrow> Inl a
      | Inr h \<Rightarrow> Inr (l\<lparr>lg_Hooks := h\<rparr>))"

definition newEntry :: "logger \<Rightarrow> Level \<Rightarrow> Field list \<Rightarrow> entry" where
  "newEntry l lv f = \<lparr>en_level = lv, en_Logger = l, en_fields = f\<rparr>"

definition Fields :: "entry \<Rightarrow> Field list" where
  "Fields e = en_fields e"

definition SetEntryLevel :: "entry \<Rightarrow> Level \<Rightarrow> entry" where
  "SetEntryLevel e l = e\<lparr>en_level := l\<rparr>"

definition EntryLevel :: "entry \<Rightarrow> Level" where
  "EntryLevel e =
     (if en_level e \<noteq> LUnrecognized then en_level e else logger_Level (en_Logger e))"

text \<open>
  \<^verbatim>\<open>entry.Read\<close>: \<^verbatim>\<open>s, err := e.Format(e); return bytes.NewBuffer(s), err\<close>. The call goes
  to the logger's active formatter; on a \<^verbatim>\<open>nil\<close> formatter it panics.
\<close>

definition entry_Read :: "env \<Rightarrow> entry \<Rightarrow> (abort + string \<times> string option) \<times> Field list" where
  "entry_Read ev e =
     (case lg_Formatter (en_Logger e) of
        None \<Rightarrow>
          (Inl (go_panic ''runtime error: invalid memory address or nil pointer dereference''),
           en_fields e)
      | Some f \<Rightarrow> Formatter_Format ev f (EntryLevel e) (en_fields e))"


section \<open>The record pipeline\<close>

text \<open>
  \<^verbatim>\<open>fire\<close>: an error of the hooks goes to \<^verbatim>\<open>os.Stdout\<close>; a hook that exits or panics ends
  the call.
\<close>

definition fire :: "Timing \<Rightarrow> Level \<Rightarrow> entry \<Rightarrow> world \<Rightarrow> abort option \<times> world" where
  "fire at lv e w =
     (case hooks_Fire (lg_Hooks (en_Logger e)) at lv (EntryLevel e, en_fields e) of
        (evs, r) \<Rightarrow>
          (let w1 = w\<lparr>trace := trace w @ evs\<rparr> in
           case r of
             HNil \<Rightarrow> (None, w1)
           | HError err \<Rightarrow>
               (None, w1\<lparr>stdout := stdout w1 @ ''log: Failed to fire hook -- '' @ err @ newline\<rparr>)
           | HAbort a \<Rightarrow> (Some a, w1)))"

text \<open>
  \<^verbatim>\<open>read\<close>: the error of \<^verbatim>\<open>e.Read()\<close> is printed, and the reader is returned whether or not
  there was one.
\<close>

definition read :: "env \<Rightarrow> entry \<Rightarrow> world \<Rightarrow> (abort + string) \<times> entry \<times> world" where
  "read ev e w =
     (case entry_Read ev e of
        (r, fds) \<Rightarrow>
          (let e' = e\<lparr>en_fields := fds\<rparr>;
               w1 = w\<lparr>trace := trace w @ [EvFormat]\<rparr> in
           case r of
             Inl a \<Rightarrow> (Inl a, e', w1)
           | Inr (s, None) \<Rightarrow> (Inr s, e', w1)
           | Inr (s, Some err) \<Rightarrow>
               (Inr s, e',
                w1\<lparr>stdout := stdout w1 @ ''log: Failed to obtain reader -- '' @ err @ newline\<rparr>)))"

text \<open>
  \<^verbatim>\<open>io.Copy(dst, buf)\<close> from a \<^verbatim>\<open>*bytes.Buffer\<close> is \<^verbatim>\<open>buf.WriteTo(dst)\<close>: one \<^verbatim>\<open>Write\<close> of all
  the bytes when there are any, none otherwise.
\<close>

definition io_Copy :: "Writer \<Rightarrow> string \<Rightarrow> world \<Rightarrow> (abort + string option) \<times> world" where
  "io_Copy dst r w =
     (if r = [] then (Inr None, w)
      else
        (case w_Write dst (sinks w (w_addr dst)) r of
           (c', m, err) \<Rightarrow>
             (let w' = w\<lparr>sinks := (sinks w)(w_addr dst := c')\<rparr> in
              if m > length r then (Inl (go_panic ''bytes.Buffer.WriteTo: invalid Write count''), w')
              else (case err of
                      Some e \<Rightarrow> (Inr (Some e), w')
                    | None \<Rightarrow> if m \<noteq> length r then (Inr (Some ''short write''), w')
                              else (Inr None, w')))))"

definition copy :: "entry \<Rightarrow> string \<Rightarrow> world \<Rightarrow> abort option \<times> world" where
  "copy e r w =
     (case io_Copy (lg_Writer (en_Logger e)) r (w\<lparr>trace := trace w @ [EvCopy r]\<rparr>) of
        (Inl a, w1) \<Rightarrow> (Some a, w1)
      | (Inr None, w1) \<Rightarrow> (None, w1)
      | (Inr (Some err), w1) \<Rightarrow>
          (None, w1\<lparr>stdout := stdout w1 @ ''log: Failed to write -- '' @ err @ newline\<rparr>))"

text \<open>
  \<^verbatim>\<open>log\<close>: \<^verbatim>\<open>fire(PRE, e.EntryLevel(), e); reader := read(e); copy(e, reader);
  fire(POST, e.EntryLevel(), e)\<close>.
\<close>

definition log :: "env \<Rightarrow> entry \<Rightarrow> world \<Rightarrow> abort option \<times> world" where
  "log ev e w =
     (case fire PRE (EntryLevel e) e (w\<lparr>trace := trace w @ [EvLog (EntryLevel e) (en_fields e)]\<rparr>) of
        (Some a, w1) \<Rightarrow> (Some a, w1)
      | (None, w1) \<Rightarrow>
          (case read ev e w1 of
             (Inl a, e', w2) \<Rightarrow> (Some a, w2)
           | (Inr reader, e', w2) \<Rightarrow>
               (case copy e' reader w2 of
                  (Some a, w3) \<Rightarrow> (Some a, w3)
                | (None, w3) \<Rightarrow> fire POST (EntryLevel e') e' w3)))"


section \<open>The call surface of the logger\<close>

definition Fatal :: "env \<Rightarrow> logger \<Rightarrow> Value list \<Rightarrow> world \<Rightarrow> abort option \<times> world" where
  "Fatal ev l v w =
     (if lg_level l \<ge> LFatal then log ev (newEntry l LFatal (mkFields 0 v)) w else (None, w))"

definition Fatalf :: "env \<Rightarrow> logger \<Rightarrow> string \<Rightarrow> Value list \<Rightarrow> world \<Rightarrow> abort option \<times> world" where
  "Fatalf ev l fmt v w =
     (if lg_level l \<ge> LFatal then log ev (newEntry l LFatal (mkFormatFields fmt v)) w
      else (None, w))"

definition Fatalln :: "env \<Rightarrow> logger \<Rightarrow> Value list \<Rightarrow> world \<Rightarrow> abort option \<times> world" where
  "Fatalln ev l v w =
     (if lg_level l \<ge> LFatal then log ev (newEntry l LFatal (mkFields 0 v)) w else (None, w))"

definition Panic :: "env \<Rightarrow> logger \<Rightarrow> Value list \<Rightarrow> world \<Rightarrow> abort option \<times> world" where
  "Panic ev l v w =
     (if lg_level l \<ge> LPanic then log ev (newEntry l LPanic (mkFields 0 v)) w else (None, w))"

definition Panicf :: "env \<Rightarrow> logger \<Rightarrow> string \<Rightarrow> Value list \<Rightarrow> world \<Rightarrow> abort option \<times> world" where
  "Panicf ev l fmt v w =
     (if lg_level l \<ge> LPanic then log ev (newEntry l LPanic (mkFormatFields fmt v)) w
      else (None, w))"

definition Panicln :: "env \<Rightarrow> logger \<Rightarrow> Value list \<Rightarrow> world \<Rightarrow> abort option \<times> world" where
  "Panicln ev l v w = Panic ev l v w"

definition Print :: "env \<Rightarrow> logger \<Rightarrow> Value list \<Rightarrow> world \<Rightarrow> abort option \<times> world" where
  "Print ev l v w =
     (if lg_level l \<ge> LError then log ev (newEntry l LInfo (mkFields 0 v)) w else (None, w))"

definition Printf :: "env \<Rightarrow> logger \<Rightarrow> string \<Rightarrow> Value list \<Rightarrow> world \<Rightarrow> abort option \<times> world" where
  "Printf ev l fmt v w =
     (if lg_level l \<ge> LError then log ev (newEntry l LInfo (mkFormatFields fmt v)) w
      else (None, w))"

definition Println :: "env \<Rightarrow> logger \<Rightarrow> Value list \<Rightarrow> world \<Rightarrow> abort option \<times> world" where
  "Println ev l v w =
     (if lg_level l \<ge> LError then log ev (newEntry l LInfo (mkFields 0 v)) w else (None, w))"

definition At :: "env \<Rightarrow> logger \<Rightarrow> Level \<Rightarrow> Value list \<Rightarrow> world \<Rightarrow> abort option \<times> world" where
  "At ev l lv v w = log ev (newEntry l lv (mkFields 0 v)) w"

definition Atf :: "env \<Rightarrow> logger \<Rightarrow> Level \<Rightarrow> string \<Rightarrow> Value list \<Rightarrow> world
    \<Rightarrow> abort option \<times> world" where
  "Atf ev l lv m v w = log ev (newEntry l lv (mkFormatFields m v)) w"

definition Log :: "env \<Rightarrow> logger \<Rightarrow> entry \<Rightarrow> world \<Rightarrow> abort option \<times> world" where
  "Log ev l e w = log ev e w"

text \<open>The entries that entered the pipeline, read off a trace.\<close>

fun logged :: "event list \<Rightarrow> (Level \<times> Field list) list" where
  "logged [] = []"
| "logged (EvLog lv fds # evs) = (lv, fds) # logged evs"
| "logged (_ # evs) = logged evs"

text \<open>A world in which nothing has happened yet, and an environment to evaluate in.\<close>

definition world0 :: world where
  "world0 = \<lparr>sinks = (\<lambda>_. []), stdout = [], trace = []\<rparr>"

definition env0 :: env where
  "env0 = \<lparr>sort_Sort = insertionSort, fmt_Sprintf = Sprintf_basic,
            time_Now_Format = (\<lambda>_. ''Jan  1 00:00:00.000000000''), NoColor = True\<rparr>"

section \<open>Notions the statements use\<close>

text \<open>
  The rendered-field-body rule of the specification speaks of a field keyed \<^verbatim>\<open>Format\<close>
  being present and of the remaining fields.
\<close>

definition has_Format :: "Field list \<Rightarrow> bool" where
  "has_Format fds = list_ex (\<lambda>fd. Key fd = ''Format'') fds"

definition remaining :: "Field list \<Rightarrow> Field list" where
  "remaining fds = filter (\<lambda>fd. Key fd \<noteq> ''Format'') fds"

text \<open>Some field keyed \<^verbatim>\<open>Format\<close> holds a value that is not a string.\<close>

definition bad_Format :: "Field list \<Rightarrow> bool" where
  "bad_Format fds =
     list_ex (\<lambda>fd. Key fd = ''Format'' \<and> (case Value fd of VString _ \<Rightarrow> False | _ \<Rightarrow> True)) fds"

text \<open>The panic of the failed assertion \<^verbatim>\<open>fd.Value.(string)\<close> on the value \<open>v\<close>.\<close>

definition conversion_panic :: "Value \<Rightarrow> abort" where
  "conversion_panic v =
     go_panic (''interface conversion: interface {} is '' @ type_name v @ '', not string'')"

text \<open>Inputs of the test suite, and a few more, for evaluating the model.\<close>

definition fields3 :: "Field list" where
  "fields3 =
     [\<lparr>Order = 0, Key = ''one'', Value = VString ''first field-''\<rparr>,
      \<lparr>Order = 1, Key = ''two'', Value = VString ''second field-''\<rparr>,
      \<lparr>Order = 2, Key = ''three'', Value = VString ''third field''\<rparr>]"





definition raw_logger :: "Level \<Rightarrow> logger" where
  "raw_logger lv = SwapFormatter (New (bytes_Buffer 0) lv ''TEST'') ''raw''"



definition bad_entry :: entry where
  "bad_entry =
     newEntry (raw_logger LDebug) LInfo [\<lparr>Order = 0, Key = ''Format'', Value = VInt 5\<rparr>]"



section \<open>Level names\<close>

lemma lower_byte_ascii:
  "(of_char (lower_byte c) :: nat) < 128 \<Longrightarrow> (of_char c :: nat) < 128"
  by (auto simp: lower_byte_def Let_def split: if_splits)

lemma isASCII_lower: "isASCII (map lower_byte s) \<Longrightarrow> isASCII s"
  by (induction s) (auto simp: isASCII_def dest: lower_byte_ascii)

lemma level_names_ascii: "n \<in> set level_names \<Longrightarrow> isASCII n"
  by (auto simp: level_names_def isASCII_def)

lemma lower_in_names_ascii: "map lower_byte s \<in> set level_names \<Longrightarrow> isASCII s"
  using isASCII_lower level_names_ascii by blast

lemma stringToLevel_Some:
  "n \<in> set level_names \<Longrightarrow> \<exists>l. stringToLevel n = Some l \<and> Level_String l = n"
  by (auto simp: level_names_def stringToLevel_def Level_String_def Level_defs)

lemma stringToLevel_None: "n \<notin> set level_names \<Longrightarrow> stringToLevel n = None"
  by (auto simp: level_names_def stringToLevel_def)

text \<open>
  Claim C8. A string is a recognized level name in some letter case when its lower-cased
  form is one of the six names of the table. For every such string \<open>s\<close>,
  \<open>Level_String (StringToLevel s)\<close> is the lower-cased \<open>s\<close>; this covers every string
  that the bytewise ASCII mapping sends to one of the names. For every other string
  (its lower-cased form is not in the table; for an ASCII string: its bytewise
  lower-cased form is not) \<open>StringToLevel\<close> yields \<open>LUnrecognized\<close>, whose string form is
  \<^verbatim>\<open>unrecognized\<close>. The Unicode case mapping \<open>U\<close> of non-ASCII strings is arbitrary.
\<close>

theorem StringToLevel_round_trip:
  "(strings_ToLower U s \<in> set level_names \<longrightarrow>
      Level_String (StringToLevel U s) = strings_ToLower U s)
   \<and> (map lower_byte s \<in> set level_names \<longrightarrow>
      Level_String (StringToLevel U s) = map lower_byte s)
   \<and> (strings_ToLower U s \<notin> set level_names \<longrightarrow> StringToLevel U s = LUnrecognized)
   \<and> (isASCII s \<and> map lower_byte s \<notin> set level_names \<longrightarrow> StringToLevel U s = LUnrecognized)
   \<and> Level_String LUnrecognized = ''unrecognized''"
proof -
  have a: "Level_String (StringToLevel U s) = strings_ToLower U s"
    if "strings_ToLower U s \<in> set level_names"
    using stringToLevel_Some [OF that] by (auto simp: StringToLevel_def)
  have b: "StringToLevel U s = LUnrecognized" if "strings_ToLower U s \<notin> set level_names"
    using stringToLevel_None [OF that] by (simp add: StringToLevel_def)
  have c: "strings_ToLower U s = map lower_byte s" if "isASCII s"
    using that by (simp add: strings_ToLower_def)
  have d: "Level_String (StringToLevel U s) = map lower_byte s"
    if "map lower_byte s \<in> set level_names"
    using a c [OF lower_in_names_ascii [OF that]] that by simp
  have e: "Level_String LUnrecognized = ''unrecognized''"
    by (simp add: Level_String_def Level_defs)
  from a b c d e show ?thesis by auto
qed

theorem StringToLevel_round_trip_witness:
  "Level_String (StringToLevel (\<lambda>s. s) ''PaNiC'') = ''panic''
   \<and> StringToLevel (\<lambda>s. s) ''trace'' = LUnrecognized"
proof -
  have l1: "map lower_byte ''PaNiC'' = ''panic''"
    by code_simp
  have l2: "map lower_byte ''trace'' = ''trace''"
    by code_simp
  have m1: "map lower_byte ''PaNiC'' \<in> set level_names"
    unfolding l1 by (simp add: level_names_def)
  have m2: "isASCII ''trace'' \<and> map lower_byte ''trace'' \<notin> set level_names"
    unfolding l2 by (simp add: level_names_def isASCII_def)
  have "Level_String (StringToLevel (\<lambda>s. s) ''PaNiC'') = map lower_byte ''PaNiC''"
    using StringToLevel_round_trip [of "\<lambda>s. s" "''PaNiC''"] m1 by blast
  moreover have "StringToLevel (\<lambda>s. s) ''trace'' = LUnrecognized"
    using StringToLevel_round_trip [of "\<lambda>s. s" "''trace''"] m2 by blast
  ultimately show ?thesis
    by (simp only: l1)
qed


section \<open>The level of an entry\<close>

text \<open>
  Claim C6, as stated: for every entry and every level \<open>L\<close>, \<open>EntryLevel\<close> after
  \<open>SetEntryLevel L\<close> is \<open>L\<close>. It fails at \<open>L = LUnrecognized\<close>: the entry of a logger
  configured at \<open>LDebug\<close> then reports \<open>LDebug\<close>.
\<close>

theorem EntryLevel_SetEntryLevel_counterexample:
  "EntryLevel (SetEntryLevel (newEntry (New (bytes_Buffer 0) LDebug ''TEST'') LInfo [])
      LUnrecognized) = LDebug
   \<and> LDebug \<noteq> LUnrecognized"
  by (simp add: EntryLevel_def SetEntryLevel_def Level_defs newEntry_def New_def
      SwapFormatter_def logger_Level_def)

text \<open>
  Claim C6, amended. For every entry and every level \<open>L\<close> other than \<open>LUnrecognized\<close>,
  \<open>EntryLevel\<close> after \<open>SetEntryLevel L\<close> is \<open>L\<close>; after \<open>SetEntryLevel LUnrecognized\<close> it is
  the level of the owning logger. In general \<open>EntryLevel\<close> is the entry's own level when
  that is not \<open>LUnrecognized\<close>, and the owning logger's level otherwise.
\<close>

theorem EntryLevel_SetEntryLevel:
  "(L \<noteq> LUnrecognized \<longrightarrow> EntryLevel (SetEntryLevel e L) = L)
   \<and> EntryLevel (SetEntryLevel e LUnrecognized) = logger_Level (en_Logger e)
   \<and> (en_level e \<noteq> LUnrecognized \<longrightarrow> EntryLevel e = en_level e)
   \<and> (en_level e = LUnrecognized \<longrightarrow> EntryLevel e = logger_Level (en_Logger e))"
  by (simp add: EntryLevel_def SetEntryLevel_def)

theorem EntryLevel_SetEntryLevel_witness:
  "EntryLevel (SetEntryLevel (newEntry (New (bytes_Buffer 0) LWarn ''TEST'') LInfo []) LDebug)
     = LDebug
   \<and> EntryLevel (newEntry (New (bytes_Buffer 0) LWarn ''TEST'') LUnrecognized []) = LWarn"
  using EntryLevel_SetEntryLevel
          [of LDebug "newEntry (New (bytes_Buffer 0) LWarn ''TEST'') LInfo []"]
        EntryLevel_SetEntryLevel
          [of LDebug "newEntry (New (bytes_Buffer 0) LWarn ''TEST'') LUnrecognized []"]
  by (simp add: Level_defs newEntry_def New_def SwapFormatter_def logger_Level_def)

section \<open>The built-in hooks\<close>

lemma newHooks_eq:
  "newHooks = [PRE \<mapsto> Map.empty, POST \<mapsto> [LFatal \<mapsto> [exit_hook], LPanic \<mapsto> [panic_hook]]]"
  by (simp add: newHooks_def AddHook_def Let_def PRE_def POST_def Level_defs fun_upd_twist)

lemma registered_newHooks:
  "registered newHooks PRE lv = []"
  "registered newHooks POST LFatal = [exit_hook]"
  "registered newHooks POST LPanic = [panic_hook]"
  by (simp_all add: newHooks_eq registered_def PRE_def POST_def Level_defs)

section \<open>The field builders\<close>








section \<open>Sorting by Order\<close>

lemma sorted_wrt_Less: "sorted_wrt (\<lambda>a b. \<not> FieldsSort_Less b a) xs = sorted (map Order xs)"
  by (simp add: sorted_map FieldsSort_Less_def not_less)

lemma filter_key_singleton:
  "distinct (map f ys) \<Longrightarrow> k \<in> set ys \<Longrightarrow> filter (\<lambda>x. f k = f x) ys = [k]"
  by (induction ys) (auto simp: filter_empty_conv image_iff)

lemma sorted_perm_unique:
  assumes "mset ys = mset xs" and "sorted (map f ys)" and "distinct (map f xs)"
  shows "ys = sort_key f xs"
proof -
  have "mset (map f ys) = mset (map f xs)"
    using assms(1) by simp
  then have dy: "distinct (map f ys)"
    using assms(3) mset_eq_imp_distinct_iff by blast
  have sx: "set ys = set xs"
    using assms(1) mset_eq_setD by blast
  have "filter (\<lambda>x. f k = f x) ys = filter (\<lambda>x. f k = f x) xs" if "k \<in> set ys" for k
    using that filter_key_singleton [OF dy] filter_key_singleton [OF assms(3)] sx by simp
  then show ?thesis
    using properties_for_sort_key [OF assms(1) _ assms(2)] by simp
qed

lemma Sort_contract_unique:
  "Sort_contract srt \<Longrightarrow> distinct (map Order fds) \<Longrightarrow> srt fds = sort_key Order fds"
  by (simp add: Sort_contract_def sorted_wrt_Less sorted_perm_unique)

lemma Sort_contract_sorted_id:
  assumes "Sort_contract srt" and "sorted_wrt (<) (map Order fds)"
  shows "srt fds = fds"
proof -
  from assms(2) have "sorted (map Order fds)" and "distinct (map Order fds)"
    by (simp_all add: strict_sorted_iff)
  then show ?thesis
    using Sort_contract_unique [OF assms(1)] by (simp add: sort_key_id_if_sorted)
qed


lemma mset_bubble: "mset (bubble x ys) = add_mset x (mset ys)"
  by (induction ys) auto

lemma set_bubble: "set (bubble x ys) = insert x (set ys)"
  by (induction ys) auto

lemma desc_bubble:
  "sorted_wrt (\<lambda>a b. Order b \<le> Order a) ys \<Longrightarrow> sorted_wrt (\<lambda>a b. Order b \<le> Order a) (bubble x ys)"
  by (induction ys) (auto simp: set_bubble FieldsSort_Less_def)

lemma foldl_bubble:
  "sorted_wrt (\<lambda>a b. Order b \<le> Order a) acc \<Longrightarrow>
   mset (foldl (\<lambda>rp x. bubble x rp) acc xs) = mset acc + mset xs
   \<and> sorted_wrt (\<lambda>a b. Order b \<le> Order a) (foldl (\<lambda>rp x. bubble x rp) acc xs)"
  by (induction xs arbitrary: acc) (auto simp: mset_bubble desc_bubble)

lemma Sort_contract_insertionSort: "Sort_contract insertionSort"
  using foldl_bubble [of "[]"]
  by (auto simp: Sort_contract_def insertionSort_def sorted_wrt_rev FieldsSort_Less_def not_less)

lemma mset_shell6_from: "i + k \<le> length fds \<Longrightarrow> 6 \<le> i \<Longrightarrow> mset (shell6_from k i fds) = mset fds"
proof (induction k arbitrary: i fds)
  case 0
  then show ?case by simp
next
  case (Suc k)
  let ?fds = "if FieldsSort_Less (fds ! i) (fds ! (i - 6))
        then fds[i := fds ! (i - 6), i - 6 := fds ! i] else fds"
  have l: "length ?fds = length fds" by simp
  have m: "mset ?fds = mset fds"
    using Suc.prems by (simp add: mset_swap)
  have "mset (shell6_from k (Suc i) ?fds) = mset ?fds"
    using Suc.prems l by (intro Suc.IH) auto
  then show ?case using m by simp
qed

lemma mset_shell6: "mset (shell6 fds) = mset fds"
proof (cases "6 \<le> length fds")
  case True
  then show ?thesis by (simp add: shell6_def mset_shell6_from)
next
  case False
  then show ?thesis by (simp add: shell6_def)
qed

lemma Sort_contract_go1_6: "Sort_contract sort_Sort_go1_6"
  using Sort_contract_insertionSort
  by (simp add: Sort_contract_def sort_Sort_go1_6_def mset_shell6)




section \<open>The raw formatter\<close>

lemma not_bad_Format:
  "\<not> bad_Format fds \<Longrightarrow> fd \<in> set fds \<Longrightarrow> Key fd = ''Format'' \<Longrightarrow> \<exists>s. Value fd = VString s"
  by (cases "Value fd") (auto simp: bad_Format_def list_ex_iff)

lemma formatTo_loop_ok:
  "\<not> bad_Format fds \<Longrightarrow>
   \<exists>t. formatTo_loop fds (b, f, ff) = Inr (b \<or> has_Format fds, t, ff @ map Value (remaining fds))
     \<and> (has_Format fds \<longrightarrow> (\<exists>fd\<in>set fds. Key fd = ''Format'' \<and> Value fd = VString t))
     \<and> (\<not> has_Format fds \<longrightarrow> t = f)"
proof (induction fds arbitrary: b f ff)
  case Nil
  then show ?case by (simp add: has_Format_def remaining_def)
next
  case (Cons fd fds)
  from Cons.prems have nb: "\<not> bad_Format fds"
    by (simp add: bad_Format_def)
  show ?case
  proof (cases "Key fd = ''Format''")
    case True
    with Cons.prems obtain s where s: "Value fd = VString s"
      using not_bad_Format [of "fd # fds" fd] by auto
    from Cons.IH [OF nb, of True s ff] obtain t where
      t: "formatTo_loop fds (True, s, ff) = Inr (True \<or> has_Format fds, t, ff @ map Value (remaining fds))"
         "has_Format fds \<longrightarrow> (\<exists>fd\<in>set fds. Key fd = ''Format'' \<and> Value fd = VString t)"
         "\<not> has_Format fds \<longrightarrow> t = s"
      by blast
    have h: "has_Format (fd # fds)"
      using True by (simp add: has_Format_def)
    have r: "remaining (fd # fds) = remaining fds"
      using True by (simp add: remaining_def)
    have l: "formatTo_loop (fd # fds) (b, f, ff) = Inr (True, t, ff @ map Value (remaining fds))"
      using True s t(1) by simp
    have e: "\<exists>fd'\<in>set (fd # fds). Key fd' = ''Format'' \<and> Value fd' = VString t"
    proof (cases "has_Format fds")
      case True
      with t(2) show ?thesis by auto
    next
      case False
      with t(3) s \<open>Key fd = ''Format''\<close> show ?thesis by auto
    qed
    show ?thesis
      using h r l e by auto
  next
    case False
    from Cons.IH [OF nb, of b f "ff @ [Value fd]"] obtain t where
      t: "formatTo_loop fds (b, f, ff @ [Value fd]) =
            Inr (b \<or> has_Format fds, t, (ff @ [Value fd]) @ map Value (remaining fds))"
         "has_Format fds \<longrightarrow> (\<exists>fd\<in>set fds. Key fd = ''Format'' \<and> Value fd = VString t)"
         "\<not> has_Format fds \<longrightarrow> t = f"
      by blast
    have h: "has_Format (fd # fds) = has_Format fds"
      using False by (simp add: has_Format_def)
    have r: "remaining (fd # fds) = fd # remaining fds"
      using False by (simp add: remaining_def)
    have l: "formatTo_loop (fd # fds) (b, f, ff) =
        Inr (b \<or> has_Format fds, t, ff @ Value fd # map Value (remaining fds))"
      using False t(1) by simp
    show ?thesis
      using h r l t(2,3) by auto
  qed
qed

lemma bad_Format_mset: "mset gs = mset fds \<Longrightarrow> bad_Format gs = bad_Format fds"
  by (auto simp: bad_Format_def list_ex_iff dest: mset_eq_setD)

lemma has_Format_mset: "mset gs = mset fds \<Longrightarrow> has_Format gs = has_Format fds"
  by (auto simp: has_Format_def list_ex_iff dest: mset_eq_setD)

lemma remaining_sorted_perm:
  assumes "mset gs = mset fds" and "sorted (map Order gs)"
  shows "mset (remaining gs) = mset (remaining fds) \<and> sorted (map Order (remaining gs))"
  using assms by (simp add: remaining_def sorted_filter)

lemma formatTo_ok:
  assumes "Sort_contract srt" and "\<not> bad_Format fds"
  shows "\<exists>gs t. formatTo (srt fds) = Inr (has_Format fds, t, map Value gs)
     \<and> mset gs = mset (remaining fds) \<and> sorted (map Order gs)
     \<and> (distinct (map Order (remaining fds)) \<longrightarrow> gs = sort_key Order (remaining fds))
     \<and> (has_Format fds \<longrightarrow> (\<exists>fd\<in>set fds. Key fd = ''Format'' \<and> Value fd = VString t))"
proof -
  from assms(1) have p: "mset (srt fds) = mset fds" and s: "sorted (map Order (srt fds))"
    by (simp_all add: Sort_contract_def sorted_wrt_Less)
  from assms(2) have nb: "\<not> bad_Format (srt fds)"
    using bad_Format_mset [OF p] by simp
  from formatTo_loop_ok [OF nb, of False "[]" "[]"] obtain t where
    t: "formatTo (srt fds) = Inr (has_Format (srt fds), t, map Value (remaining (srt fds)))"
       "has_Format (srt fds) \<longrightarrow> (\<exists>fd\<in>set (srt fds). Key fd = ''Format'' \<and> Value fd = VString t)"
    by (auto simp: formatTo_def)
  have r: "mset (remaining (srt fds)) = mset (remaining fds)"
          "sorted (map Order (remaining (srt fds)))"
    using remaining_sorted_perm [OF p s] by simp_all
  have u: "remaining (srt fds) = sort_key Order (remaining fds)"
    if "distinct (map Order (remaining fds))"
    using sorted_perm_unique [OF r that] .
  have se: "set (srt fds) = set fds"
    using p mset_eq_setD by blast
  show ?thesis
    using t r u se has_Format_mset [OF p]
    by (intro exI [of _ "remaining (srt fds)"] exI [of _ t]) auto
qed

lemma Key_mkFields: "fd \<in> set (mkFields index v) \<Longrightarrow> Key fd \<noteq> ''Format''"
  by (auto simp: mkFields_def Let_def)

lemma not_bad_builders: "\<not> bad_Format (mkFields index v) \<and> \<not> bad_Format (mkFormatFields t v)"
  by (auto simp: bad_Format_def list_ex_iff mkFormatFields_def dest: Key_mkFields)

text \<open>
  Claim C3, as stated: the raw formatter renders every entry as body and newline. It
  fails on an entry whose \<^verbatim>\<open>Format\<close> field holds the integer 5: the formatter panics and
  renders nothing.
\<close>

theorem RawFormatter_panics_counterexample:
  "fst (Formatter_Format env0 RawFormatter LInfo [\<lparr>Order = 0, Key = ''Format'', Value = VInt 5\<rparr>])
     = Inl (go_panic ''interface conversion: interface {} is int, not string'')"
  by code_simp

text \<open>
  Claim C3, amended. For every entry whose fields keyed \<^verbatim>\<open>Format\<close> all hold strings, the
  raw formatter returns the rendered-field-body followed by one newline, and no error:
  if a field keyed \<^verbatim>\<open>Format\<close> is present, the value of such a field is the template,
  applied to the values of the remaining fields in ascending \<open>Order\<close>; otherwise the
  \<^verbatim>\<open>%s\<close> forms of the remaining values are concatenated in ascending \<open>Order\<close> with no
  separator. The arrangement is the sorted one when the remaining fields have pairwise
  distinct \<open>Order\<close>. In particular the three fields of \<open>fields3\<close> render to
  \<^verbatim>\<open>first field-second field-third field\<close> and a newline. \<^verbatim>\<open>sort.Sort\<close> and \<^verbatim>\<open>fmt.Fprintf\<close>
  are any functions within the contract of \<^verbatim>\<open>sort.Sort\<close>.
\<close>

theorem RawFormatter_renders:
  assumes "Sort_contract (sort_Sort ev)"
  shows "(\<not> bad_Format fds \<longrightarrow>
      (\<exists>gs t. mset gs = mset (remaining fds) \<and> sorted (map Order gs)
         \<and> (distinct (map Order (remaining fds)) \<longrightarrow> gs = sort_key Order (remaining fds))
         \<and> (has_Format fds \<longrightarrow> (\<exists>fd\<in>set fds. Key fd = ''Format'' \<and> Value fd = VString t))
         \<and> fst (Formatter_Format ev RawFormatter lvl fds) =
             Inr ((if has_Format fds then fmt_Sprintf ev t (map Value gs)
                   else concat (map Sprint_s (map Value gs))) @ newline, None)))
    \<and> fst (Formatter_Format ev RawFormatter lvl fields3) =
        Inr (''first field-second field-third field'' @ newline, None)"
proof -
  have a: "\<exists>gs t. mset gs = mset (remaining fds) \<and> sorted (map Order gs)
         \<and> (distinct (map Order (remaining fds)) \<longrightarrow> gs = sort_key Order (remaining fds))
         \<and> (has_Format fds \<longrightarrow> (\<exists>fd\<in>set fds. Key fd = ''Format'' \<and> Value fd = VString t))
         \<and> fst (Formatter_Format ev RawFormatter lvl fds) =
             Inr ((if has_Format fds then fmt_Sprintf ev t (map Value gs)
                   else concat (map Sprint_s (map Value gs))) @ newline, None)"
    if nb: "\<not> bad_Format fds"
  proof -
    from formatTo_ok [OF assms nb] obtain gs t where
      g: "formatTo (sort_Sort ev fds) = Inr (has_Format fds, t, map Value gs)"
         "mset gs = mset (remaining fds)" "sorted (map Order gs)"
         "distinct (map Order (remaining fds)) \<longrightarrow> gs = sort_key Order (remaining fds)"
         "has_Format fds \<longrightarrow> (\<exists>fd\<in>set fds. Key fd = ''Format'' \<and> Value fd = VString t)"
      by blast
    have "fst (Formatter_Format ev RawFormatter lvl fds) =
             Inr ((if has_Format fds then fmt_Sprintf ev t (map Value gs)
                   else concat (map Sprint_s (map Value gs))) @ newline, None)"
      using g(1) by (simp add: format_def Let_def)
    with g show ?thesis by blast
  qed
  have s3: "sort_Sort ev fields3 = fields3"
    using Sort_contract_sorted_id [OF assms, of fields3] by (simp add: fields3_def)
  have b: "fst (Formatter_Format ev RawFormatter lvl fields3) =
        Inr (''first field-second field-third field'' @ newline, None)"
    by (simp add: format_def Let_def s3) (simp add: fields3_def formatTo_def Sprint_s_def)
  from a b show ?thesis by blast
qed

theorem RawFormatter_renders_witness:
  "Sort_contract (sort_Sort env0)
   \<and> \<not> bad_Format (mkFormatFields ''%s'' [VString ''MESSAGE''])
   \<and> fst (Formatter_Format env0 RawFormatter LInfo (mkFormatFields ''%s'' [VString ''MESSAGE'']))
       = Inr (''MESSAGE'' @ newline, None)
   \<and> fst (Formatter_Format env0 RawFormatter LDebug fields3)
       = Inr (''first field-second field-third field'' @ newline, None)"
proof -
  have c: "Sort_contract (sort_Sort env0)"
    by (simp add: env0_def Sort_contract_insertionSort)
  have nb: "\<not> bad_Format (mkFormatFields ''%s'' [VString ''MESSAGE''])"
    using not_bad_builders by blast
  have d: "distinct (map Order (remaining (mkFormatFields ''%s'' [VString ''MESSAGE''])))"
    by code_simp
  have hf: "has_Format (mkFormatFields ''%s'' [VString ''MESSAGE''])"
    by code_simp
  have r: "map Value (sort_key Order (remaining (mkFormatFields ''%s'' [VString ''MESSAGE''])))
      = [VString ''MESSAGE'']"
    by code_simp
  have t: "t = ''%s''"
    if "\<exists>fd\<in>set (mkFormatFields ''%s'' [VString ''MESSAGE'']). Key fd = ''Format'' \<and> Value fd = VString t"
    for t
    using that by (auto simp: mkFormatFields_def dest: Key_mkFields)
  have sp: "fmt_Sprintf env0 ''%s'' [VString ''MESSAGE''] = ''MESSAGE''"
    by code_simp
  note R = RawFormatter_renders [OF c, of "mkFormatFields ''%s'' [VString ''MESSAGE'']" LInfo]
  from R nb obtain gs t where
    g: "distinct (map Order (remaining (mkFormatFields ''%s'' [VString ''MESSAGE'']))) \<longrightarrow>
          gs = sort_key Order (remaining (mkFormatFields ''%s'' [VString ''MESSAGE'']))"
       "has_Format (mkFormatFields ''%s'' [VString ''MESSAGE'']) \<longrightarrow>
          (\<exists>fd\<in>set (mkFormatFields ''%s'' [VString ''MESSAGE'']). Key fd = ''Format'' \<and> Value fd = VString t)"
       "fst (Formatter_Format env0 RawFormatter LInfo (mkFormatFields ''%s'' [VString ''MESSAGE''])) =
             Inr ((if has_Format (mkFormatFields ''%s'' [VString ''MESSAGE''])
                   then fmt_Sprintf env0 t (map Value gs)
                   else concat (map Sprint_s (map Value gs))) @ newline, None)"
    by blast
  from g(1) d have gs: "map Value gs = [VString ''MESSAGE'']"
    using r by simp
  from g(2) hf t have tt: "t = ''%s''"
    by blast
  have m: "fst (Formatter_Format env0 RawFormatter LInfo (mkFormatFields ''%s'' [VString ''MESSAGE'']))
       = Inr (''MESSAGE'' @ newline, None)"
    using g(3) hf by (simp only: gs tt sp if_True)
  from RawFormatter_renders [OF c, of _ LDebug]
  have f3: "fst (Formatter_Format env0 RawFormatter LDebug fields3)
       = Inr (''first field-second field-third field'' @ newline, None)"
    by blast
  from c nb m f3 show ?thesis by blast
qed

section \<open>The order of the pipeline\<close>

lemma fire_each_events:
  "fire_each at lv hs e = (evs, r) \<Longrightarrow> x \<in> set evs \<Longrightarrow> \<exists>h\<in>set hs. x = EvHook at lv (hk_id h)"
proof (induction hs arbitrary: evs r)
  case Nil
  then show ?case by simp
next
  case (Cons h hs)
  show ?case
  proof (cases "hk_fn h e")
    case HNil
    obtain evs' r' where f: "fire_each at lv hs e = (evs', r')"
      by (cases "fire_each at lv hs e")
    with HNil Cons.prems have "evs = EvHook at lv (hk_id h) # evs'"
      by simp
    with Cons.prems(2) Cons.IH [OF f] show ?thesis
      by auto
  next
    case (HError m)
    with Cons.prems show ?thesis by auto
  next
    case (HAbort a)
    with Cons.prems show ?thesis by auto
  qed
qed

lemma hooks_Fire_events:
  "hooks_Fire has at lv e = (evs, r) \<Longrightarrow> x \<in> set evs \<Longrightarrow>
     \<exists>h\<in>set (registered has at lv). x = EvHook at lv (hk_id h)"
  by (auto simp: hooks_Fire_def registered_def split: option.splits dest: fire_each_events)

lemma fire_world:
  assumes "fire at lv e w = (a, w')"
  shows "\<exists>evs. trace w' = trace w @ evs \<and> sinks w' = sinks w
     \<and> (\<forall>x\<in>set evs. \<exists>h\<in>set (registered (lg_Hooks (en_Logger e)) at lv). x = EvHook at lv (hk_id h))"
proof -
  obtain evs r where h: "hooks_Fire (lg_Hooks (en_Logger e)) at lv (EntryLevel e, en_fields e) = (evs, r)"
    by (cases "hooks_Fire (lg_Hooks (en_Logger e)) at lv (EntryLevel e, en_fields e)")
  have "trace w' = trace w @ evs \<and> sinks w' = sinks w"
    using assms h by (cases r) (auto simp: fire_def Let_def)
  with hooks_Fire_events [OF h] show ?thesis by blast
qed

lemma read_world:
  assumes "read ev e w = (r, e', w')"
  shows "trace w' = trace w @ [EvFormat] \<and> sinks w' = sinks w
     \<and> en_Logger e' = en_Logger e \<and> en_level e' = en_level e
     \<and> (\<forall>s. r = Inr s \<longrightarrow> (\<exists>err. fst (entry_Read ev e) = Inr (s, err)))"
  using assms
  by (auto simp: read_def Let_def split: prod.splits sum.splits option.splits)

lemma io_Copy_buffer:
  "io_Copy (bytes_Buffer ad) s w = (Inr None, w\<lparr>sinks := (sinks w)(ad := sinks w ad @ s)\<rparr>)"
  by (simp add: io_Copy_def bytes_Buffer_def Let_def)

lemma io_Copy_trace: "io_Copy dst s w = (r, w') \<Longrightarrow> trace w' = trace w"
  by (auto simp: io_Copy_def Let_def split: if_splits prod.splits option.splits)

lemma copy_world:
  assumes "copy e s w = (a, w')"
  shows "trace w' = trace w @ [EvCopy s]
     \<and> (\<forall>ad. lg_Writer (en_Logger e) = bytes_Buffer ad \<longrightarrow>
           a = None \<and> sinks w' ad = sinks w ad @ s)"
proof -
  obtain r w1 where c: "io_Copy (lg_Writer (en_Logger e)) s (w\<lparr>trace := trace w @ [EvCopy s]\<rparr>) = (r, w1)"
    by (cases "io_Copy (lg_Writer (en_Logger e)) s (w\<lparr>trace := trace w @ [EvCopy s]\<rparr>)")
  have t: "trace w' = trace w @ [EvCopy s]"
    using assms c io_Copy_trace [OF c]
    by (auto simp: copy_def split: sum.splits option.splits)
  have b: "a = None \<and> sinks w' ad = sinks w ad @ s" if "lg_Writer (en_Logger e) = bytes_Buffer ad" for ad
    using assms that by (auto simp: copy_def io_Copy_buffer)
  from t b show ?thesis by blast
qed

lemma EntryLevel_cong:
  "en_Logger e' = en_Logger e \<Longrightarrow> en_level e' = en_level e \<Longrightarrow> EntryLevel e' = EntryLevel e"
  by (simp add: EntryLevel_def)

lemma log_shapeI:
  assumes "trace w' = trace w @ [EvLog L fs] @ pre @ mid @ post"
    and "\<forall>x\<in>set pre. \<exists>h\<in>set (registered H PRE L). x = EvHook PRE L (hk_id h)"
    and "\<forall>x\<in>set post. \<exists>h\<in>set (registered H POST L). x = EvHook POST L (hk_id h)"
    and "mid = [] \<or> mid = [EvFormat] \<or> (\<exists>s. mid = [EvFormat, EvCopy s])"
    and "mid = [] \<longrightarrow> a \<noteq> None"
    and "post \<noteq> [] \<longrightarrow> (\<exists>s. mid = [EvFormat, EvCopy s])"
    and "\<forall>s. mid = [EvFormat, EvCopy s] \<longrightarrow>
          (\<exists>err. rd = Inr (s, err))
          \<and> (\<forall>ad. wr = bytes_Buffer ad \<longrightarrow> sinks w' ad = sinks w ad @ s)"
  shows "\<exists>pre mid post.
      trace w' = trace w @ [EvLog L fs] @ pre @ mid @ post
    \<and> (\<forall>x\<in>set pre. \<exists>h\<in>set (registered H PRE L). x = EvHook PRE L (hk_id h))
    \<and> (\<forall>x\<in>set post. \<exists>h\<in>set (registered H POST L). x = EvHook POST L (hk_id h))
    \<and> (mid = [] \<or> mid = [EvFormat] \<or> (\<exists>s. mid = [EvFormat, EvCopy s]))
    \<and> (mid = [] \<longrightarrow> a \<noteq> None)
    \<and> (post \<noteq> [] \<longrightarrow> (\<exists>s. mid = [EvFormat, EvCopy s]))
    \<and> (\<forall>s. mid = [EvFormat, EvCopy s] \<longrightarrow>
          (\<exists>err. rd = Inr (s, err))
          \<and> (\<forall>ad. wr = bytes_Buffer ad \<longrightarrow> sinks w' ad = sinks w ad @ s))"
  using assms by blast

lemma log_shape:
  assumes "log ev e w = (a, w')"
  shows "\<exists>pre mid post.
      trace w' = trace w @ [EvLog (EntryLevel e) (en_fields e)] @ pre @ mid @ post
    \<and> (\<forall>x\<in>set pre. \<exists>h\<in>set (registered (lg_Hooks (en_Logger e)) PRE (EntryLevel e)).
           x = EvHook PRE (EntryLevel e) (hk_id h))
    \<and> (\<forall>x\<in>set post. \<exists>h\<in>set (registered (lg_Hooks (en_Logger e)) POST (EntryLevel e)).
           x = EvHook POST (EntryLevel e) (hk_id h))
    \<and> (mid = [] \<or> mid = [EvFormat] \<or> (\<exists>s. mid = [EvFormat, EvCopy s]))
    \<and> (mid = [] \<longrightarrow> a \<noteq> None)
    \<and> (post \<noteq> [] \<longrightarrow> (\<exists>s. mid = [EvFormat, EvCopy s]))
    \<and> (\<forall>s. mid = [EvFormat, EvCopy s] \<longrightarrow>
          (\<exists>err. fst (entry_Read ev e) = Inr (s, err))
          \<and> (\<forall>ad. lg_Writer (en_Logger e) = bytes_Buffer ad \<longrightarrow> sinks w' ad = sinks w ad @ s))"
proof -
  let ?L = "EntryLevel e"
  let ?w0 = "w\<lparr>trace := trace w @ [EvLog ?L (en_fields e)]\<rparr>"
  obtain a1 w1 where f1: "fire PRE ?L e ?w0 = (a1, w1)"
    by (cases "fire PRE ?L e ?w0")
  from fire_world [OF f1] obtain pre where
    pre0: "trace w1 = trace ?w0 @ pre" "sinks w1 = sinks ?w0"
          "\<forall>x\<in>set pre. \<exists>h\<in>set (registered (lg_Hooks (en_Logger e)) PRE ?L).
              x = EvHook PRE ?L (hk_id h)"
    by blast
  have pre1: "trace w1 = trace w @ [EvLog ?L (en_fields e)] @ pre"
    using pre0(1) by simp
  have pre2: "sinks w1 = sinks w"
    using pre0(2) by simp
  note pre3 = pre0(3)
  show ?thesis
  proof (cases a1)
    case (Some x)
    with assms f1 have "a = Some x" "w' = w1"
      by (simp_all add: log_def)
    then show ?thesis
      using pre1 pre3 by (intro log_shapeI [where pre = pre and mid = "[]" and post = "[]"]) simp_all
  next
    case None
    obtain r e2 w2 where rd: "read ev e w1 = (r, e2, w2)"
      by (cases "read ev e w1") auto
    from read_world [OF rd] have
      r2: "trace w2 = trace w1 @ [EvFormat]" "sinks w2 = sinks w1"
          "en_Logger e2 = en_Logger e" "en_level e2 = en_level e"
          "\<forall>s. r = Inr s \<longrightarrow> (\<exists>err. fst (entry_Read ev e) = Inr (s, err))"
      by blast+
    have t2: "trace w2 = trace w @ [EvLog ?L (en_fields e)] @ pre @ [EvFormat]"
      using r2(1) pre1 by simp
    show ?thesis
    proof (cases r)
      case (Inl x)
      with assms f1 None rd have "a = Some x" "w' = w2"
        by (simp_all add: log_def)
      then show ?thesis
        using t2 pre3
        by (intro log_shapeI [where pre = pre and mid = "[EvFormat]" and post = "[]"]) simp_all
    next
      case (Inr s)
      obtain a3 w3 where cp: "copy e2 s w2 = (a3, w3)"
        by (cases "copy e2 s w2")
      from copy_world [OF cp] have
        c3: "trace w3 = trace w2 @ [EvCopy s]"
            "\<forall>ad. lg_Writer (en_Logger e2) = bytes_Buffer ad \<longrightarrow>
                a3 = None \<and> sinks w3 ad = sinks w2 ad @ s"
        by blast+
      have t3: "trace w3 = trace w @ [EvLog ?L (en_fields e)] @ pre @ [EvFormat, EvCopy s]"
        using c3(1) t2 by simp
      have s3: "\<forall>ad. lg_Writer (en_Logger e) = bytes_Buffer ad \<longrightarrow> sinks w3 ad = sinks w ad @ s"
        using c3(2) r2(2,3) pre2 by simp
      from r2(5) Inr obtain err where er: "fst (entry_Read ev e) = Inr (s, err)"
        by blast
      show ?thesis
      proof (cases a3)
        case (Some x)
        with assms f1 None rd Inr cp have "a = Some x" "w' = w3"
          by (simp_all add: log_def)
        then show ?thesis
          using t3 pre3 s3 er
          by (intro log_shapeI [where pre = pre and mid = "[EvFormat, EvCopy s]" and post = "[]"])
            simp_all
      next
        case None3: None
        have L2: "EntryLevel e2 = ?L"
          using r2(3,4) by (rule EntryLevel_cong)
        from assms f1 None rd Inr cp None3 have f4: "fire POST ?L e2 w3 = (a, w')"
          by (simp add: log_def L2)
        from fire_world [OF f4] obtain post where
          post0: "trace w' = trace w3 @ post" "sinks w' = sinks w3"
                 "\<forall>x\<in>set post. \<exists>h\<in>set (registered (lg_Hooks (en_Logger e2)) POST ?L).
                     x = EvHook POST ?L (hk_id h)"
          by blast
        have post3: "\<forall>x\<in>set post. \<exists>h\<in>set (registered (lg_Hooks (en_Logger e)) POST ?L).
                     x = EvHook POST ?L (hk_id h)"
          using post0(3) r2(3) by simp
        have t4: "trace w' = trace w @ [EvLog ?L (en_fields e)] @ pre @ [EvFormat, EvCopy s] @ post"
          using post0(1) t3 by simp
        have s4: "\<forall>ad. lg_Writer (en_Logger e) = bytes_Buffer ad \<longrightarrow> sinks w' ad = sinks w ad @ s"
          using s3 post0(2) by simp
        show ?thesis
          using t4 pre3 post3 s4 er
          by (intro log_shapeI [where pre = pre and mid = "[EvFormat, EvCopy s]" and post = post])
            simp_all
      qed
    qed
  qed
qed






section \<open>Firing hooks\<close>


lemma hooks_Fire_registered:
  "hooks_Fire has at lv e = fire_each at lv (registered has at lv) e"
  by (simp add: hooks_Fire_def registered_def split: option.splits)





section \<open>Level gating\<close>

lemma hook_events_not_logged:
  "\<forall>x\<in>set evs. \<exists>t l n. x = EvHook t l n \<Longrightarrow> logged evs = []"
  by (induction evs) auto

lemma logged_append: "logged (xs @ ys) = logged xs @ logged ys"
  by (induction xs rule: logged.induct) auto

lemma log_logged:
  "logged (trace (snd (log ev e w))) = logged (trace w) @ [(EntryLevel e, en_fields e)]"
proof -
  obtain a w' where l: "log ev e w = (a, w')"
    by (cases "log ev e w")
  from log_shape [OF l] obtain pre mid post where
    s: "trace w' = trace w @ [EvLog (EntryLevel e) (en_fields e)] @ pre @ mid @ post"
       "\<forall>x\<in>set pre. \<exists>h\<in>set (registered (lg_Hooks (en_Logger e)) PRE (EntryLevel e)).
           x = EvHook PRE (EntryLevel e) (hk_id h)"
       "\<forall>x\<in>set post. \<exists>h\<in>set (registered (lg_Hooks (en_Logger e)) POST (EntryLevel e)).
           x = EvHook POST (EntryLevel e) (hk_id h)"
       "mid = [] \<or> mid = [EvFormat] \<or> (\<exists>s. mid = [EvFormat, EvCopy s])"
    by blast
  have "logged pre = []"
    using s(2) by (intro hook_events_not_logged) blast
  moreover have "logged post = []"
    using s(3) by (intro hook_events_not_logged) blast
  moreover have "logged mid = []"
    using s(4) by auto
  ultimately show ?thesis
    using l s(1) by (simp add: logged_append)
qed

lemma EntryLevel_newEntry:
  "EntryLevel (newEntry l lv f) = (if lv \<noteq> LUnrecognized then lv else lg_level l)"
  by (simp add: EntryLevel_def newEntry_def logger_Level_def)

text \<open>
  Claim C1. For every logger \<open>l\<close> with minimum level \<open>lg_level l\<close>: \<open>Fatal\<close>, \<open>Fatalf\<close>,
  \<open>Fatalln\<close> hand one entry of level \<open>LFatal\<close> to the pipeline when \<open>LFatal \<le> lg_level l\<close> and
  none otherwise; \<open>Panic\<close>, \<open>Panicf\<close>, \<open>Panicln\<close> one of level \<open>LPanic\<close> when
  \<open>LPanic \<le> lg_level l\<close> and none otherwise; \<open>Print\<close>, \<open>Printf\<close>, \<open>Println\<close> one of level
  \<open>LInfo\<close> when \<open>LError \<le> lg_level l\<close> and none otherwise; \<open>At\<close> and \<open>Atf\<close> always hand one
  entry to the pipeline, whatever \<open>lg_level l\<close> is.
\<close>

theorem level_gating:
  "logged (trace (snd (Fatal ev l v w))) =
     logged (trace w) @ (if LFatal \<le> lg_level l then [(LFatal, mkFields 0 v)] else [])
   \<and> logged (trace (snd (Fatalf ev l fmt v w))) =
     logged (trace w) @ (if LFatal \<le> lg_level l then [(LFatal, mkFormatFields fmt v)] else [])
   \<and> logged (trace (snd (Fatalln ev l v w))) =
     logged (trace w) @ (if LFatal \<le> lg_level l then [(LFatal, mkFields 0 v)] else [])
   \<and> logged (trace (snd (Panic ev l v w))) =
     logged (trace w) @ (if LPanic \<le> lg_level l then [(LPanic, mkFields 0 v)] else [])
   \<and> logged (trace (snd (Panicf ev l fmt v w))) =
     logged (trace w) @ (if LPanic \<le> lg_level l then [(LPanic, mkFormatFields fmt v)] else [])
   \<and> logged (trace (snd (Panicln ev l v w))) =
     logged (trace w) @ (if LPanic \<le> lg_level l then [(LPanic, mkFields 0 v)] else [])
   \<and> logged (trace (snd (Print ev l v w))) =
     logged (trace w) @ (if LError \<le> lg_level l then [(LInfo, mkFields 0 v)] else [])
   \<and> logged (trace (snd (Printf ev l fmt v w))) =
     logged (trace w) @ (if LError \<le> lg_level l then [(LInfo, mkFormatFields fmt v)] else [])
   \<and> logged (trace (snd (Println ev l v w))) =
     logged (trace w) @ (if LError \<le> lg_level l then [(LInfo, mkFields 0 v)] else [])
   \<and> logged (trace (snd (At ev l lv v w))) =
     logged (trace w) @ [(if lv \<noteq> LUnrecognized then lv else lg_level l, mkFields 0 v)]
   \<and> logged (trace (snd (Atf ev l lv fmt v w))) =
     logged (trace w) @ [(if lv \<noteq> LUnrecognized then lv else lg_level l, mkFormatFields fmt v)]"
proof -
  have n: "en_fields (newEntry l lv f) = f" for lv f
    by (simp add: newEntry_def)
  have e: "EntryLevel (newEntry l LFatal f) = LFatal" "EntryLevel (newEntry l LPanic f) = LPanic"
    "EntryLevel (newEntry l LInfo f) = LInfo" for f
    by (simp_all add: EntryLevel_newEntry Level_defs)
  show ?thesis
    by (simp add: Fatal_def Fatalf_def Fatalln_def Panic_def Panicf_def Panicln_def Print_def
        Printf_def Println_def At_def Atf_def log_logged n e EntryLevel_newEntry Level_defs)
qed

theorem level_gating_witness:
  "logged (trace (snd (Print env0 (raw_logger LDebug) [VString ''MESSAGE''] world0))) =
     [(LInfo, mkFields 0 [VString ''MESSAGE''])]
   \<and> logged (trace (snd (Print env0 (raw_logger LFatal) [VString ''MESSAGE''] world0))) = []
   \<and> logged (trace (snd (At env0 (raw_logger LPanic) LDebug [VString ''MESSAGE''] world0))) =
     [(LDebug, mkFields 0 [VString ''MESSAGE''])]"
  using level_gating [of env0 "raw_logger LDebug" "[VString ''MESSAGE'']" world0]
        level_gating [of env0 "raw_logger LFatal" "[VString ''MESSAGE'']" world0]
        level_gating [of env0 "raw_logger LPanic" "[VString ''MESSAGE'']" world0 _ LDebug]
  by (simp add: raw_logger_def New_def SwapFormatter_def world0_def Level_defs)

section \<open>A formatter that returns an error\<close>





section \<open>The type assertion in formatTo\<close>

lemma formatTo_loop_bad:
  "bad_Format fds \<Longrightarrow>
     \<exists>v. (\<forall>s. v \<noteq> VString s) \<and> formatTo_loop fds (b, f, ff) = Inl (conversion_panic v)"
proof (induction fds arbitrary: b f ff)
  case Nil
  then show ?case by (simp add: bad_Format_def)
next
  case (Cons fd fds)
  show ?case
  proof (cases "Key fd = ''Format''")
    case True
    show ?thesis
    proof (cases "Value fd")
      case (VString s)
      with True Cons.prems have "bad_Format fds"
        by (simp add: bad_Format_def)
      from Cons.IH [OF this, of True s ff] True VString show ?thesis
        by simp
    next
      case (VInt i)
      with True show ?thesis
        by (intro exI [of _ "VInt i"]) (simp add: conversion_panic_def)
    next
      case (VBool c)
      with True show ?thesis
        by (intro exI [of _ "VBool c"]) (simp add: conversion_panic_def)
    next
      case VNil
      with True show ?thesis
        by (intro exI [of _ VNil]) (simp add: conversion_panic_def)
    qed
  next
    case False
    with Cons.prems have "bad_Format fds"
      by (simp add: bad_Format_def)
    from Cons.IH [OF this, of b f "ff @ [Value fd]"] False show ?thesis
      by simp
  qed
qed

lemma format_bad:
  assumes "Sort_contract (sort_Sort ev)" and "bad_Format fds"
  shows "\<exists>v. (\<forall>s. v \<noteq> VString s) \<and> fst (format ev fds) = Inl (conversion_panic v)"
proof -
  from assms(1) have p: "mset (sort_Sort ev fds) = mset fds"
    by (simp add: Sort_contract_def)
  from assms(2) have "bad_Format (sort_Sort ev fds)"
    using bad_Format_mset [OF p] by simp
  from formatTo_loop_bad [OF this, of False "[]" "[]"] show ?thesis
    by (auto simp: format_def formatTo_def Let_def)
qed

text \<open>
  Claim C10. For every entry with a field keyed \<^verbatim>\<open>Format\<close> whose value is not a string,
  \<open>Format\<close> of the raw and of the text formatter panics with the failed type assertion;
  it does not return an error. Every run of \<open>log\<close> (so every \<open>Log\<close>, \<open>At\<close> or \<open>Print\<close> call)
  that reaches the rendering of such an entry with one of these formatters ends in
  that panic, with nothing written to the sink. \<^verbatim>\<open>sort.Sort\<close> is any function within its
  contract.
\<close>

theorem Format_panics:
  assumes "Sort_contract (sort_Sort ev)" and "bad_Format (en_fields e)"
    and "F = RawFormatter \<or> F = TextFormatter name tsf srt"
  shows "\<exists>v. (\<forall>s. v \<noteq> VString s)
     \<and> fst (Formatter_Format ev F lvl (en_fields e)) = Inl (conversion_panic v)
     \<and> (\<forall>w w1. lg_Formatter (en_Logger e) = Some F \<and>
           fire PRE (EntryLevel e) e
             (w\<lparr>trace := trace w @ [EvLog (EntryLevel e) (en_fields e)]\<rparr>) = (None, w1) \<longrightarrow>
           fst (log ev e w) = Some (conversion_panic v)
           \<and> fst (Log ev l e w) = Some (conversion_panic v)
           \<and> sinks (snd (log ev e w)) = sinks w1)"
proof -
  from format_bad [OF assms(1,2)] obtain v where
    v: "\<forall>s. v \<noteq> VString s" "fst (format ev (en_fields e)) = Inl (conversion_panic v)"
    by blast
  obtain fds' where fm: "format ev (en_fields e) = (Inl (conversion_panic v), fds')"
    using v(2) by (cases "format ev (en_fields e)") auto
  have F: "Formatter_Format ev F lvl (en_fields e) = (Inl (conversion_panic v), fds')" for lvl
    using assms(3) fm by (auto simp: formatFields_def Let_def)
  have p: "fst (log ev e w) = Some (conversion_panic v)
           \<and> fst (Log ev l e w) = Some (conversion_panic v)
           \<and> sinks (snd (log ev e w)) = sinks w1"
    if "lg_Formatter (en_Logger e) = Some F"
      and "fire PRE (EntryLevel e) e
             (w\<lparr>trace := trace w @ [EvLog (EntryLevel e) (en_fields e)]\<rparr>) = (None, w1)"
    for w w1
    using that F by (simp add: log_def Log_def read_def entry_Read_def)
  from v(1) F p show ?thesis
    by (intro exI [of _ v]) simp
qed

theorem Format_panics_witness:
  "Sort_contract (sort_Sort env0) \<and> bad_Format (en_fields bad_entry)
   \<and> lg_Formatter (en_Logger bad_entry) = Some RawFormatter
   \<and> fst (Log env0 (raw_logger LDebug) bad_entry world0) = Some (conversion_panic (VInt 5))
   \<and> sinks (snd (log env0 bad_entry world0)) 0 = []"
proof -
  have c: "Sort_contract (sort_Sort env0)"
    by (simp add: env0_def Sort_contract_insertionSort)
  have b: "bad_Format (en_fields bad_entry)"
    by code_simp
  have f: "lg_Formatter (en_Logger bad_entry) = Some RawFormatter"
    by (simp add: bad_entry_def newEntry_def raw_logger_def New_def SwapFormatter_def
        GetFormatter_def defaultFormatters_def)
  have p: "fire PRE (EntryLevel bad_entry) bad_entry
       (world0\<lparr>trace := trace world0 @ [EvLog (EntryLevel bad_entry) (en_fields bad_entry)]\<rparr>)
     = (None, world0\<lparr>trace := trace world0 @ [EvLog (EntryLevel bad_entry) (en_fields bad_entry)]\<rparr>)"
    by (simp add: fire_def hooks_Fire_registered bad_entry_def newEntry_def raw_logger_def New_def
        SwapFormatter_def registered_newHooks)
  have "fst (Formatter_Format env0 RawFormatter LInfo (en_fields bad_entry))
      = Inl (conversion_panic (VInt 5))"
    by (simp add: bad_entry_def newEntry_def env0_def format_def insertionSort_def formatTo_def
        conversion_panic_def)
  then have v: "conversion_panic v = conversion_panic (VInt 5)"
    if "fst (Formatter_Format env0 RawFormatter LInfo (en_fields bad_entry)) = Inl (conversion_panic v)"
    for v
    using that by simp
  from Format_panics [OF c b, of RawFormatter _ _ _ LInfo "raw_logger LDebug"] obtain v where
    r: "fst (Formatter_Format env0 RawFormatter LInfo (en_fields bad_entry)) = Inl (conversion_panic v)"
       "\<forall>w w1. lg_Formatter (en_Logger bad_entry) = Some RawFormatter \<and>
           fire PRE (EntryLevel bad_entry) bad_entry
             (w\<lparr>trace := trace w @ [EvLog (EntryLevel bad_entry) (en_fields bad_entry)]\<rparr>) = (None, w1) \<longrightarrow>
           fst (log env0 bad_entry w) = Some (conversion_panic v)
           \<and> fst (Log env0 (raw_logger LDebug) bad_entry w) = Some (conversion_panic v)
           \<and> sinks (snd (log env0 bad_entry w)) = sinks w1"
    by blast
  from r(2) f p have
    "fst (Log env0 (raw_logger LDebug) bad_entry world0) = Some (conversion_panic v)"
    "sinks (snd (log env0 bad_entry world0)) =
       sinks (world0\<lparr>trace := trace world0 @ [EvLog (EntryLevel bad_entry) (en_fields bad_entry)]\<rparr>)"
    by blast+
  with v [OF r(1)] c b f show ?thesis
    by (simp add: world0_def)
qed

end
